theory Spec2Isabelle
  imports Main "HOL-Library.Word"
begin

section \<open>havoc: timestamp-resolved alternatives (src/havoc.hpp)\<close>

text \<open>
  The header defines a process-wide sequence counter, a heap-indirected box
  \<^verbatim>\<open>optional<T>\<close>, a timestamped slot \<^verbatim>\<open>option<T>\<close>, the aggregate
  \<^verbatim>\<open>one_of<T...>\<close> of one slot per type, and the recursive \<^verbatim>\<open>visitor_helper\<close>
  that picks the slot written last.

  Modelling decisions.
  \<^item> \<^verbatim>\<open>std::atomic_uint64_t _counter\<close> is a \<open>64 word\<close>; \<^verbatim>\<open>++_counter\<close> wraps. The model
    is sequential. \<^verbatim>\<open>size_t _timestamp\<close> is taken to be 64 bits wide as well (LP64), so
    storing a drawn number in a slot does not truncate it.
  \<^item> \<^verbatim>\<open>std::unique_ptr<T> _storage\<close> owns its pointee exclusively, so no two boxes alias;
    the pointer is an \<open>'a option\<close> (\<open>None\<close> is the null pointer) and the pointee a value.
  \<^item> \<^verbatim>\<open>T()\<close>, the value-initialised \<open>T\<close> that \<^verbatim>\<open>std::make_unique<T>()\<close> builds, is a
    parameter \<open>T0\<close> of every operation that may build one.
  \<^item> A member function returning \<^verbatim>\<open>T&\<close> returns the referenced value together with
    the object after the call.
  \<^item> Constructors and assignment operators of \<^verbatim>\<open>option<T>\<close> run against the global
    counter: they take its value and return it with their result.
\<close>

subsection \<open>The sequence counter\<close>

text \<open>\<^verbatim>\<open>++_counter\<close>: increment, and yield the new value.\<close>

definition counter_next :: "64 word \<Rightarrow> 64 word \<times> 64 word" where
  "counter_next c = (c + 1, c + 1)"

text \<open>
  The specification's \<^verbatim>\<open>next()\<close> is this one expression. A client that draws \<open>n\<close> times in a
  row sees the values drawn, in order, and leaves the counter behind.
\<close>

fun counter_draws :: "nat \<Rightarrow> 64 word \<Rightarrow> 64 word list \<times> 64 word" where
  "counter_draws 0 c = ([], c)"
| "counter_draws (Suc n) c =
     (case counter_next c of (v, c') \<Rightarrow>
        (case counter_draws n c' of (vs, c'') \<Rightarrow> (v # vs, c'')))"

subsection \<open>\<^verbatim>\<open>optional<T>\<close>: the box\<close>

datatype 'a optional = Optional (ptr: "'a option")

text \<open>\<^verbatim>\<open>optional() = default\<close>: a null \<^verbatim>\<open>_storage\<close>.\<close>

definition optional_default :: "'a optional" where
  "optional_default = Optional None"

text \<open>\<^verbatim>\<open>optional(T&& value)\<close> and \<^verbatim>\<open>optional(const T& value)\<close>: \<^verbatim>\<open>make_unique<T>(value)\<close>.\<close>

definition optional_value :: "'a \<Rightarrow> 'a optional" where
  "optional_value v = Optional (Some v)"

text \<open>
  \<^verbatim>\<open>optional(optional&& other)\<close>: takes over the pointer of \<open>other\<close>, which is left null.
  The result is the new box and \<open>other\<close> afterwards.
\<close>

definition optional_move :: "'a optional \<Rightarrow> 'a optional \<times> 'a optional" where
  "optional_move other = (Optional (ptr other), Optional None)"

text \<open>\<^verbatim>\<open>operator bool() const\<close>: \<^verbatim>\<open>_storage.get()\<close> is not null.\<close>

definition optional_bool :: "'a optional \<Rightarrow> bool" where
  "optional_bool this = (case ptr this of None \<Rightarrow> False | Some v \<Rightarrow> True)"

text \<open>
  \<^verbatim>\<open>T& operator*() const\<close>: \<^verbatim>\<open>*_storage\<close>. Dereferencing a null pointer is undefined
  behaviour; the model returns \<open>None\<close> for it.
\<close>

definition optional_deref :: "'a optional \<Rightarrow> 'a option" where
  "optional_deref this = ptr this"

text \<open>
  \<^verbatim>\<open>T& get_or_create()\<close>: allocates a value-initialised \<open>T\<close> when the pointer is null.
  The result is the referenced value and the box afterwards.
\<close>

definition get_or_create :: "'a \<Rightarrow> 'a optional \<Rightarrow> 'a \<times> 'a optional" where
  "get_or_create T0 this =
     (case ptr this of
        None \<Rightarrow> (T0, Optional (Some T0))
      | Some v \<Rightarrow> (v, this))"

text \<open>
  \<^verbatim>\<open>get_or_create() = value\<close>, the body of \<^verbatim>\<open>operator=(T&&)\<close> and \<^verbatim>\<open>operator=(const T&)\<close>:
  the value is written through the reference, into the pointee there is after the call.
\<close>

definition optional_assign_value :: "'a \<Rightarrow> 'a \<Rightarrow> 'a optional \<Rightarrow> 'a optional" where
  "optional_assign_value T0 value this =
     (case get_or_create T0 this of (r, this') \<Rightarrow> Optional (map_option (\<lambda>old. value) (ptr this')))"

text \<open>
  \<^verbatim>\<open>operator=(const optional& other)\<close>: \<^verbatim>\<open>if (other) get_or_create() = *other;\<close> and nothing
  else. Under the guard \<^verbatim>\<open>*other\<close> is defined.
\<close>

definition optional_assign_copy :: "'a \<Rightarrow> 'a optional \<Rightarrow> 'a optional \<Rightarrow> 'a optional" where
  "optional_assign_copy T0 other this =
     (if optional_bool other then
        (case optional_deref other of
           Some v \<Rightarrow> optional_assign_value T0 v this
         | None \<Rightarrow> this)
      else this)"

text \<open>
  \<^verbatim>\<open>optional(const optional& other)\<close>: \<^verbatim>\<open>_storage\<close> starts null, then the same guarded
  statement runs.
\<close>

definition optional_copy :: "'a \<Rightarrow> 'a optional \<Rightarrow> 'a optional" where
  "optional_copy T0 other =
     (if optional_bool other then
        (case optional_deref other of
           Some v \<Rightarrow> optional_assign_value T0 v (Optional None)
         | None \<Rightarrow> Optional None)
      else Optional None)"

text \<open>\<^verbatim>\<open>void reset()\<close>.\<close>

definition reset :: "'a optional \<Rightarrow> 'a optional" where
  "reset this = Optional None"

text \<open>
  \<^verbatim>\<open>visit(visitor, const optional<T>& input)\<close>: the handler \<^verbatim>\<open>visitor.visit\<close> is a
  function \<open>h\<close>; the result is a \<^verbatim>\<open>std::optional\<close>.
\<close>

definition optional_visit :: "('a \<Rightarrow> 'r) \<Rightarrow> 'a optional \<Rightarrow> 'r option" where
  "optional_visit h input =
     (if optional_bool input then map_option h (optional_deref input) else None)"

subsection \<open>\<^verbatim>\<open>option<T>\<close>: the timestamped slot\<close>

record 'a option_slot =
  storage :: "'a optional"
  timestamp :: "64 word"

text \<open>\<^verbatim>\<open>option()\<close>.\<close>

definition option_default :: "'a option_slot" where
  "option_default = \<lparr>storage = optional_default, timestamp = 0\<rparr>"

text \<open>\<^verbatim>\<open>option(T&& value)\<close>: \<^verbatim>\<open>_storage(value), _timestamp(++_counter)\<close>.\<close>

definition option_value :: "'a \<Rightarrow> 64 word \<Rightarrow> 'a option_slot \<times> 64 word" where
  "option_value value c =
     (case counter_next c of (t, c') \<Rightarrow>
        (\<lparr>storage = optional_value value, timestamp = t\<rparr>, c'))"

text \<open>
  \<^verbatim>\<open>option(option<T>&& other)\<close>: \<^verbatim>\<open>_storage(std::move(other._storage)),
  _timestamp(other._timestamp)\<close>. The result is the new slot, \<open>other\<close> afterwards, and the
  counter.
\<close>

definition option_move :: "'a option_slot \<Rightarrow> 64 word \<Rightarrow> ('a option_slot \<times> 'a option_slot) \<times> 64 word" where
  "option_move other c =
     (case optional_move (storage other) of (b, other_storage) \<Rightarrow>
        ((\<lparr>storage = b, timestamp = timestamp other\<rparr>, other\<lparr>storage := other_storage\<rparr>), c))"

text \<open>\<^verbatim>\<open>option(const option<T>& other)\<close>.\<close>

definition option_copy :: "'a \<Rightarrow> 'a option_slot \<Rightarrow> 64 word \<Rightarrow> 'a option_slot \<times> 64 word" where
  "option_copy T0 other c =
     (\<lparr>storage = optional_copy T0 (storage other), timestamp = timestamp other\<rparr>, c)"

text \<open>\<^verbatim>\<open>operator=(T&& value)\<close>: \<^verbatim>\<open>_timestamp = ++_counter; _storage = value;\<close>.\<close>

definition option_assign_value :: "'a \<Rightarrow> 'a \<Rightarrow> 'a option_slot \<Rightarrow> 64 word \<Rightarrow> 'a option_slot \<times> 64 word" where
  "option_assign_value T0 value this c =
     (case counter_next c of (t, c') \<Rightarrow>
        (this\<lparr>timestamp := t, storage := optional_assign_value T0 value (storage this)\<rparr>, c'))"

text \<open>
  \<^verbatim>\<open>operator=(const option<T>& other)\<close>: \<^verbatim>\<open>_timestamp = other._timestamp;
  _storage = other._storage;\<close>.
\<close>

definition option_assign_copy :: "'a \<Rightarrow> 'a option_slot \<Rightarrow> 'a option_slot \<Rightarrow> 64 word \<Rightarrow> 'a option_slot \<times> 64 word" where
  "option_assign_copy T0 other this c =
     (this\<lparr>timestamp := timestamp other,
           storage := optional_assign_copy T0 (storage other) (storage this)\<rparr>, c)"

text \<open>
  \<^verbatim>\<open>T& operator*() const\<close>: \<^verbatim>\<open>_storage.get_or_create()\<close> on the \<^verbatim>\<open>mutable\<close> box. The result
  is the referenced value and the slot afterwards.
\<close>

definition option_deref :: "'a \<Rightarrow> 'a option_slot \<Rightarrow> 'a \<times> 'a option_slot" where
  "option_deref T0 this =
     (case get_or_create T0 (storage this) of (v, b) \<Rightarrow> (v, this\<lparr>storage := b\<rparr>))"

subsection \<open>\<^verbatim>\<open>one_of<T...>\<close>: one slot per type\<close>

text \<open>
  \<^verbatim>\<open>one_of<T1, ..., Tn>\<close> derives from \<^verbatim>\<open>option<T1>\<close>, ..., \<^verbatim>\<open>option<Tn>\<close>, in this order.
  The values of all the \<open>Ti\<close> live in one type \<open>'v\<close>, so that one function \<open>h\<close> is the
  overload set \<^verbatim>\<open>visitor.visit\<close>. An object is the list of its base subobjects, each with
  the value-initialised \<open>Ti\<close> of its type; the position in the list stands for the type,
  which is how \<^verbatim>\<open>static_cast<const option<T>&>(input)\<close> finds the slot when the types are
  pairwise distinct. The pack is never empty: \<^verbatim>\<open>option<T, Ts...>\<close> has no instance for it.
\<close>

type_synonym 'v one_of = "('v \<times> 'v option_slot) list"

text \<open>The default constructor, for the type list given by its value-initialised values.\<close>

definition one_of_default :: "'v list \<Rightarrow> 'v one_of" where
  "one_of_default Ts = map (\<lambda>T0. (T0, option_default)) Ts"

text \<open>
  \<^verbatim>\<open>operator=(T&& value)\<close> inherited from \<^verbatim>\<open>option<Ti>\<close>: overload resolution on the type of
  the value picks the base, here the index \<open>i\<close>. No overload exists for a type that is not
  listed; the model leaves the object as it is for an index out of range.
\<close>

definition one_of_assign_value :: "nat \<Rightarrow> 'v \<Rightarrow> 'v one_of \<Rightarrow> 64 word \<Rightarrow> 'v one_of \<times> 64 word" where
  "one_of_assign_value i value this c =
     (if i < length this then
        (case this ! i of (T0, slot) \<Rightarrow>
           (case option_assign_value T0 value slot c of (slot', c') \<Rightarrow>
              (this[i := (T0, slot')], c')))
      else (this, c))"

text \<open>
  A client's assignments to one object, in order: each pair is the index of the type and
  the value assigned.
\<close>

fun one_of_assign_values :: "(nat \<times> 'v) list \<Rightarrow> 'v one_of \<Rightarrow> 64 word \<Rightarrow> 'v one_of \<times> 64 word" where
  "one_of_assign_values [] this c = (this, c)"
| "one_of_assign_values ((i, value) # rest) this c =
     (case one_of_assign_value i value this c of (this', c') \<Rightarrow> one_of_assign_values rest this' c')"

subsection \<open>\<^verbatim>\<open>visitor_helper\<close> and \<^verbatim>\<open>visit\<close>\<close>

text \<open>
  \<^verbatim>\<open>visitor_helper<T>::visit\<close> is the equation for one slot, \<^verbatim>\<open>visitor_helper<T, Ts...>::visit\<close>
  the one for two or more. \<^verbatim>\<open>*value\<close> is \<^verbatim>\<open>option<T>::operator*\<close>, which may allocate in the
  \<^verbatim>\<open>mutable\<close> box of the \<^verbatim>\<open>const\<close> input, so the object is returned with the result. The
  handler is taken to be a function of the value. The empty list has no counterpart in the
  source; the model answers as the base case does when nothing qualifies.
\<close>

fun visitor_helper_visit :: "64 word \<Rightarrow> ('v \<Rightarrow> 'r) \<Rightarrow> 'v one_of \<Rightarrow> 'r option \<times> 'v one_of" where
  "visitor_helper_visit ts h [] = (None, [])"
| "visitor_helper_visit ts h [(T0, value)] =
     (if timestamp value > ts then
        (case option_deref T0 value of (v, value') \<Rightarrow> (Some (h v), [(T0, value')]))
      else (None, [(T0, value)]))"
| "visitor_helper_visit ts h ((T0, value) # rest) =
     (if timestamp value > ts then
        (case visitor_helper_visit (timestamp value) h rest of
           (Some result, rest') \<Rightarrow> (Some result, (T0, value) # rest')
         | (None, rest') \<Rightarrow>
             (case option_deref T0 value of (v, value') \<Rightarrow> (Some (h v), (T0, value') # rest')))
      else
        (case visitor_helper_visit ts h rest of (result, rest') \<Rightarrow> (result, (T0, value) # rest')))"

text \<open>
  \<^verbatim>\<open>visit(visitor, const one_of<T...>& input)\<close>: the threshold is 0; \<open>R0\<close> is the
  value-initialised \<^verbatim>\<open>result\<close> of \<^verbatim>\<open>return {};\<close>.
\<close>

definition visit :: "('v \<Rightarrow> 'r) \<Rightarrow> 'r \<Rightarrow> 'v one_of \<Rightarrow> 'r \<times> 'v one_of" where
  "visit h R0 input =
     (case visitor_helper_visit 0 h input of
        (Some result, input') \<Rightarrow> (result, input')
      | (None, input') \<Rightarrow> (R0, input'))"

subsection \<open>Histories of one slot\<close>

text \<open>
  A client's statements on one \<^verbatim>\<open>option<T>\<close> object after its default construction:
  \<^verbatim>\<open>slot = value\<close>, \<^verbatim>\<open>slot = other\<close> and \<^verbatim>\<open>*slot\<close>. The state is the slot and the counter.
\<close>

datatype 'a slot_op = Assign_value 'a | Assign_copy "'a option_slot" | Deref

fun slot_step :: "'a \<Rightarrow> 'a option_slot \<times> 64 word \<Rightarrow> 'a slot_op \<Rightarrow> 'a option_slot \<times> 64 word" where
  "slot_step T0 (this, c) (Assign_value v) = option_assign_value T0 v this c"
| "slot_step T0 (this, c) (Assign_copy other) = option_assign_copy T0 other this c"
| "slot_step T0 (this, c) Deref = (snd (option_deref T0 this), c)"

definition slot_run :: "'a \<Rightarrow> 64 word \<Rightarrow> 'a slot_op list \<Rightarrow> 'a option_slot \<times> 64 word" where
  "slot_run T0 c ops = foldl (slot_step T0) (option_default, c) ops"

text \<open>
  The words of the specification about a history, not code of the header: the slot
  ``has been the target of an explicit assignment'' when the history holds an assignment,
  of a value or of another slot; \<open>copies_unassigned\<close> marks a copy assignment from a slot
  whose timestamp is 0.
\<close>

fun is_assignment :: "'a slot_op \<Rightarrow> bool" where
  "is_assignment (Assign_value v) = True"
| "is_assignment (Assign_copy other) = True"
| "is_assignment Deref = False"

fun copies_unassigned :: "'a slot_op \<Rightarrow> bool" where
  "copies_unassigned (Assign_copy other) = (timestamp other = 0)"
| "copies_unassigned (Assign_value v) = False"
| "copies_unassigned Deref = False"

definition explicitly_assigned :: "'a slot_op list \<Rightarrow> bool" where
  "explicitly_assigned ops = list_ex is_assignment ops"

text \<open>
  The number of draws a history makes on its own, one for each assignment of a value.
\<close>

fun is_value_assignment :: "'a slot_op \<Rightarrow> bool" where
  "is_value_assignment (Assign_value v) = True"
| "is_value_assignment (Assign_copy other) = False"
| "is_value_assignment Deref = False"

definition value_assignments :: "'a slot_op list \<Rightarrow> nat" where
  "value_assignments ops = length (filter is_value_assignment ops)"

text \<open>
  Other slots draw from the same counter between the statements of a client. In such a
  history every statement on the slot comes with the value the counter has when the
  statement runs, whatever made it so; only the slot is carried from one statement to the
  next. \<open>draws_zero\<close> marks an assignment of a value whose draw, \<^verbatim>\<open>++_counter\<close>, yields 0: the
  one draw at which the counter wraps.
\<close>

definition slot_run_at :: "'a \<Rightarrow> (64 word \<times> 'a slot_op) list \<Rightarrow> 'a option_slot" where
  "slot_run_at T0 history =
     foldl (\<lambda>this (c, op). fst (slot_step T0 (this, c) op)) option_default history"

fun draws_zero :: "64 word \<times> 'a slot_op \<Rightarrow> bool" where
  "draws_zero (c, Assign_value v) = (fst (counter_next c) = 0)"
| "draws_zero (c, Assign_copy other) = False"
| "draws_zero (c, Deref) = False"

section \<open>The sequence counter\<close>

lemma counter_draws_Suc:
  "counter_draws (Suc n) c =
     ((c + 1) # fst (counter_draws n (c + 1)), snd (counter_draws n (c + 1)))"
  by (simp add: counter_next_def split_beta)

lemma counter_draws_length: "length (fst (counter_draws n c)) = n"
  by (induction n arbitrary: c) (simp_all add: counter_draws_Suc del: counter_draws.simps(2))

text \<open>The call number \<open>i\<close> (from 0) returns the start value plus \<open>i + 1\<close>, modulo \<open>2^64\<close>.\<close>

lemma counter_draws_nth:
  "i < n \<Longrightarrow> fst (counter_draws n c) ! i = c + 1 + of_nat i"
proof (induction n arbitrary: c i)
  case 0
  then show ?case by simp
next
  case (Suc n)
  show ?case
  proof (cases i)
    case 0
    then show ?thesis by (simp add: counter_draws_Suc del: counter_draws.simps(2))
  next
    case (Suc j)
    with Suc.prems have "j < n" by simp
    from Suc.IH [OF this, of "c + 1"] Suc show ?thesis
      by (simp add: counter_draws_Suc del: counter_draws.simps(2))
  qed
qed

lemma counter_draws_snd: "snd (counter_draws n c) = c + of_nat n"
  by (induction n arbitrary: c) (simp_all add: counter_draws_Suc del: counter_draws.simps(2))

lemma unat_counter_offset:
  fixes c :: "64 word"
  assumes "unat c + k < 2 ^ 64"
  shows "unat (c + of_nat k) = unat c + k"
proof -
  from assms have k: "k < 2 ^ 64" by simp
  then have "unat (of_nat k :: 64 word) = k"
    by (simp add: unat_of_nat)
  with assms show ?thesis
    by (simp add: unat_add_lem [THEN iffD1])
qed

lemma counter_draws_increasing:
  assumes "unat c + n < 2 ^ 64"
  shows "sorted_wrt (<) (fst (counter_draws n c))"
proof -
  have "fst (counter_draws n c) ! i < fst (counter_draws n c) ! j" if "i < j" "j < n" for i j
  proof -
    from that have i: "i < n" by simp
    have "unat (c + of_nat (Suc i)) = unat c + Suc i"
      using assms that by (intro unat_counter_offset) simp
    moreover have "unat (c + of_nat (Suc j)) = unat c + Suc j"
      using assms that by (intro unat_counter_offset) simp
    ultimately have "c + of_nat (Suc i) < c + of_nat (Suc j)"
      using that by (simp add: word_less_nat_alt)
    then show ?thesis
      using that i by (simp add: counter_draws_nth add.assoc)
  qed
  then show ?thesis
    by (simp add: sorted_wrt_iff_nth_less counter_draws_length)
qed

text \<open>
  C7, as stated, fails: the counter is 64 bits wide and starts at 0, so the call number
  \<open>2^64\<close> returns 0, below the 1 that the first call returned, and the call after it
  returns 1 again. The sequence of the first \<open>2^64\<close> returned values is not increasing,
  and the sequence of the first \<open>2^64 + 1\<close> is not free of repetitions.
\<close>

theorem C7_counter_wraps:
  "fst (counter_draws (2 ^ 64) 0) ! 0 = 1
   \<and> fst (counter_draws (2 ^ 64) 0) ! (2 ^ 64 - 1) = 0
   \<and> \<not> sorted_wrt (<) (fst (counter_draws (2 ^ 64) 0))
   \<and> fst (counter_draws (2 ^ 64 + 1) 0) ! (2 ^ 64) = 1
   \<and> \<not> distinct (fst (counter_draws (2 ^ 64 + 1) 0))"
proof -
  let ?xs = "fst (counter_draws (2 ^ 64) 0)"
  let ?ys = "fst (counter_draws (2 ^ 64 + 1) 0)"
  have first: "?xs ! 0 = 1" and last: "?xs ! (2 ^ 64 - 1) = 0"
    by (simp_all add: counter_draws_nth)
  have unsorted: "\<not> sorted_wrt (<) ?xs"
  proof
    assume "sorted_wrt (<) ?xs"
    moreover have "(0::nat) < 2 ^ 64 - 1" "(2 ^ 64 - 1 :: nat) < length ?xs"
      by (simp_all add: counter_draws_length)
    ultimately have "?xs ! 0 < ?xs ! (2 ^ 64 - 1)"
      by (rule sorted_wrt_nth_less)
    then show False
      by (simp only: first last) simp
  qed
  have y0: "?ys ! 0 = 1" and y1: "?ys ! (2 ^ 64) = 1"
    by (simp_all add: counter_draws_nth)
  have "?ys ! 0 = ?ys ! (2 ^ 64)"
    by (simp only: y0 y1)
  moreover have "(0::nat) < length ?ys" "(2 ^ 64 :: nat) < length ?ys" "(0::nat) \<noteq> 2 ^ 64"
    by (simp_all add: counter_draws_length)
  ultimately have repeated: "\<not> distinct ?ys"
    unfolding distinct_conv_nth by blast
  from first last unsorted y1 repeated show ?thesis by blast
qed

text \<open>
  C7, amended: as long as the counter does not pass \<open>2^64 - 1\<close>, that is for \<open>n\<close> calls
  from a counter value \<open>c\<close> with \<open>c + n < 2^64\<close> (from the initial value 0: for fewer than
  \<open>2^64\<close> calls), every call returns a value strictly greater than all values returned
  before it, and the returned values are pairwise distinct.
\<close>

theorem C7_draws_increasing_distinct:
  assumes "unat c + n < 2 ^ 64"
  shows "sorted_wrt (<) (fst (counter_draws n c)) \<and> distinct (fst (counter_draws n c))"
proof -
  have inc: "sorted_wrt (<) (fst (counter_draws n c))"
    using assms by (rule counter_draws_increasing)
  then have "distinct (fst (counter_draws n c))"
    by (simp add: strict_sorted_iff)
  with inc show ?thesis by simp
qed

theorem C7_draws_increasing_distinct_witness:
  "unat (0 :: 64 word) + 3 < 2 ^ 64
   \<and> fst (counter_draws 3 0) = [1, 2, 3]
   \<and> sorted_wrt (<) (fst (counter_draws 3 0)) \<and> distinct (fst (counter_draws 3 0))"
proof -
  have h: "unat (0 :: 64 word) + 3 < 2 ^ 64" by simp
  have "fst (counter_draws 3 0) = [1, 2, 3]"
    by (simp add: numeral_3_eq_3 counter_next_def)
  with h C7_draws_increasing_distinct [OF h] show ?thesis by simp
qed

section \<open>The box \<^verbatim>\<open>optional<T>\<close>\<close>

lemma optional_assign_value_eq: "optional_assign_value T0 v this = Optional (Some v)"
  by (cases this) (simp add: optional_assign_value_def get_or_create_def split: option.splits)

lemma optional_assign_copy_eq:
  "optional_assign_copy T0 other this =
     (case ptr other of None \<Rightarrow> this | Some v \<Rightarrow> Optional (Some v))"
  by (simp add: optional_assign_copy_def optional_bool_def optional_deref_def
      optional_assign_value_eq split: option.splits)

lemma optional_copy_eq: "optional_copy T0 other = other"
  by (cases other)
    (simp add: optional_copy_def optional_bool_def optional_deref_def
      optional_assign_value_eq split: option.splits)

text \<open>What holds of C4: a source that holds a value is copied, by the copy constructor and
  by the copy assignment, whatever the target held; the copy constructor copies an empty
  source to an empty box.\<close>

lemma optional_copy_present:
  "optional_copy T0 (optional_value v) = optional_value v
   \<and> optional_assign_copy T0 (optional_value v) this = optional_value v"
  by (simp add: optional_copy_eq optional_assign_copy_eq optional_value_def)

lemma optional_copy_empty: "optional_copy T0 optional_default = optional_default"
  by (simp add: optional_copy_eq)

text \<open>
  C4 at its failing input: the target holds 5 and the source is empty. The copy assignment
  takes the \<^verbatim>\<open>if (other)\<close> branch only, so for an empty source it does nothing: every
  target is left as it was, and the one holding 5 still holds 5 and still tests present,
  where the claim has it empty.
\<close>

theorem C4_assign_from_empty_keeps_value:
  "optional_assign_copy T0 optional_default this = this
   \<and> optional_assign_copy (0::int) optional_default (optional_value 5) = optional_value 5
   \<and> optional_bool (optional_assign_copy (0::int) optional_default (optional_value 5))
   \<and> optional_assign_copy (0::int) optional_default (optional_value 5) \<noteq> optional_default"
  by (simp add: optional_assign_copy_eq optional_default_def optional_value_def optional_bool_def)

text \<open>
  C6: \<^verbatim>\<open>get_or_create\<close> on an empty box returns (a reference to) the value-initialised
  \<open>T0\<close> and leaves the box holding it, so the presence test that follows is true and
  \<^verbatim>\<open>operator*\<close> reads \<open>T0\<close>. \<^verbatim>\<open>option<T>::operator*\<close> leaves the timestamp of every slot as it
  was; on a default-constructed slot it returns \<open>T0\<close>, the box becomes present and the
  timestamp is still 0.
\<close>

theorem C6_auto_vivification:
  "get_or_create T0 optional_default = (T0, optional_value T0)
   \<and> optional_bool (snd (get_or_create T0 optional_default))
   \<and> optional_deref (snd (get_or_create T0 optional_default)) = Some T0
   \<and> timestamp (snd (option_deref T0 this)) = timestamp this
   \<and> fst (option_deref T0 option_default) = T0
   \<and> optional_bool (storage (snd (option_deref T0 option_default)))
   \<and> timestamp (snd (option_deref T0 option_default)) = 0"
  by (simp add: get_or_create_def optional_default_def optional_value_def optional_bool_def
      optional_deref_def option_deref_def option_default_def split_beta)

text \<open>
  C8: \<^verbatim>\<open>visit(visitor, optional<T>)\<close> on a box holding \<open>v\<close> returns the handler's output on
  \<open>v\<close>, wrapped; on an empty box it returns the empty result, whatever the handler is; it
  returns a result exactly when the box is present. Its only inputs are the handler and
  the box: there is no timestamp to consult.
\<close>

theorem C8_optional_visit:
  "optional_visit h (optional_value v) = Some (h v)
   \<and> optional_visit h optional_default = None
   \<and> optional_visit h input = (case ptr input of None \<Rightarrow> None | Some v \<Rightarrow> Some (h v))
   \<and> (optional_visit h input \<noteq> None) = optional_bool input"
  by (simp add: optional_visit_def optional_bool_def optional_deref_def optional_value_def
      optional_default_def split: option.splits)

section \<open>The slot \<^verbatim>\<open>option<T>\<close>\<close>

text \<open>
  C5: the copy constructor and the copy assignment, from a slot that holds \<open>v\<close> with
  timestamp \<open>t\<close>, give a slot that holds \<open>v\<close> with timestamp \<open>t\<close> (whatever the target of
  the assignment was), and return the counter they were given.
\<close>

theorem C5_copy_preserves_timestamp:
  "option_copy T0 \<lparr>storage = optional_value v, timestamp = t\<rparr> c =
     (\<lparr>storage = optional_value v, timestamp = t\<rparr>, c)
   \<and> option_assign_copy T0 \<lparr>storage = optional_value v, timestamp = t\<rparr> this c =
     (\<lparr>storage = optional_value v, timestamp = t\<rparr>, c)"
  by (simp add: option_copy_def option_assign_copy_def optional_copy_eq optional_assign_copy_eq
      optional_value_def)

section \<open>Resolution\<close>

text \<open>One equation for \<^verbatim>\<open>visitor_helper\<close> on a non-empty list, whatever the rest is.\<close>

lemma visitor_helper_visit_Cons:
  "visitor_helper_visit ts h ((T0, value) # rest) =
     (if timestamp value > ts then
        (case fst (visitor_helper_visit (timestamp value) h rest) of
           Some result \<Rightarrow>
             (Some result, (T0, value) # snd (visitor_helper_visit (timestamp value) h rest))
         | None \<Rightarrow>
             (Some (h (fst (option_deref T0 value))),
              (T0, snd (option_deref T0 value)) # snd (visitor_helper_visit (timestamp value) h rest)))
      else (fst (visitor_helper_visit ts h rest), (T0, value) # snd (visitor_helper_visit ts h rest)))"
  by (cases rest) (auto simp: split_beta split: option.splits)

lemma visitor_helper_visit_none:
  "\<forall>x\<in>set input. timestamp (snd x) \<le> ts \<Longrightarrow> visitor_helper_visit ts h input = (None, input)"
proof (induction input)
  case Nil
  show ?case by simp
next
  case (Cons x input)
  obtain T0 "value" where x: "x = (T0, value)" by (cases x)
  from Cons.prems x have "\<not> ts < timestamp value" by (simp add: not_less)
  moreover from Cons have "visitor_helper_visit ts h input = (None, input)" by simp
  ultimately show ?case by (simp add: x visitor_helper_visit_Cons)
qed

text \<open>
  The slot returned is the first one that carries the greatest timestamp, when that
  timestamp is above the threshold; the box of that slot is the only thing that may change.
\<close>

lemma visitor_helper_visit_first_max:
  assumes "i < length input"
    and "ts < timestamp (snd (input ! i))"
    and "\<forall>j<i. timestamp (snd (input ! j)) < timestamp (snd (input ! i))"
    and "\<forall>j<length input. i < j \<longrightarrow> timestamp (snd (input ! j)) \<le> timestamp (snd (input ! i))"
  shows "visitor_helper_visit ts h input =
     (Some (h (fst (option_deref (fst (input ! i)) (snd (input ! i))))),
      input[i := (fst (input ! i), snd (option_deref (fst (input ! i)) (snd (input ! i))))])"
  using assms
proof (induction input arbitrary: ts i)
  case Nil
  then show ?case by simp
next
  case (Cons x input)
  obtain T0 "value" where x: "x = (T0, value)" by (cases x)
  show ?case
  proof (cases i)
    case 0
    have "\<forall>y\<in>set input. timestamp (snd y) \<le> timestamp value"
    proof
      fix y assume "y \<in> set input"
      then obtain j where j: "j < length input" "input ! j = y"
        by (auto simp: in_set_conv_nth)
      with Cons.prems(4) [rule_format, of "Suc j"] show "timestamp (snd y) \<le> timestamp value"
        by (simp add: 0 x)
    qed
    then have "visitor_helper_visit (timestamp value) h input = (None, input)"
      by (rule visitor_helper_visit_none)
    with Cons.prems(2) show ?thesis
      by (simp add: 0 x visitor_helper_visit_Cons)
  next
    case (Suc k)
    let ?m = "timestamp (snd (input ! k))"
    let ?res = "(Some (h (fst (option_deref (fst (input ! k)) (snd (input ! k))))),
      input[k := (fst (input ! k), snd (option_deref (fst (input ! k)) (snd (input ! k))))])"
    from Cons.prems(1) have k: "k < length input" by (simp add: Suc)
    from Cons.prems(3) have before: "\<forall>j<k. timestamp (snd (input ! j)) < ?m"
      by (auto simp: Suc)
    from Cons.prems(3) have head: "timestamp value < ?m"
      by (auto simp: Suc x)
    from Cons.prems(4) have after: "\<forall>j<length input. k < j \<longrightarrow> timestamp (snd (input ! j)) \<le> ?m"
      by (auto simp: Suc)
    from Cons.prems(2) have ts: "ts < ?m" by (simp add: Suc)
    have "visitor_helper_visit (timestamp value) h input = ?res"
      using k head before after by (rule Cons.IH)
    moreover have "visitor_helper_visit ts h input = ?res"
      using k ts before after by (rule Cons.IH)
    ultimately show ?thesis
      by (simp add: Suc x visitor_helper_visit_Cons)
  qed
qed

text \<open>
  C2: on a freshly constructed \<^verbatim>\<open>one_of\<close>, for any type list, \<^verbatim>\<open>visitor_helper::visit\<close> with
  threshold 0 returns the empty \<^verbatim>\<open>std::optional\<close> and leaves the object as it was, whatever
  the handler is; \<^verbatim>\<open>visit\<close> then reaches its \<^verbatim>\<open>return {};\<close>, the value-initialised \<open>R0\<close>
  that stands for no result. For any object and threshold: when no slot has a timestamp above
  the threshold, the result is empty and the object is unchanged.
\<close>

theorem C2_no_slot_no_result:
  "visitor_helper_visit 0 h (one_of_default Ts) = (None, one_of_default Ts)
   \<and> visit h R0 (one_of_default Ts) = (R0, one_of_default Ts)
   \<and> ((\<forall>x\<in>set input. \<not> timestamp (snd x) > ts) \<longrightarrow>
        visitor_helper_visit ts h input = (None, input))"
proof -
  have fresh: "\<forall>x\<in>set (one_of_default Ts). timestamp (snd x) \<le> 0"
    by (auto simp: one_of_default_def option_default_def)
  have helper: "visitor_helper_visit 0 h (one_of_default Ts) = (None, one_of_default Ts)"
    using fresh by (rule visitor_helper_visit_none)
  then have top: "visit h R0 (one_of_default Ts) = (R0, one_of_default Ts)"
    by (simp add: visit_def)
  have "visitor_helper_visit ts h input = (None, input)"
    if "\<forall>x\<in>set input. \<not> timestamp (snd x) > ts"
  proof -
    from that have "\<forall>x\<in>set input. timestamp (snd x) \<le> ts" by (simp add: not_less)
    then show ?thesis by (rule visitor_helper_visit_none)
  qed
  with helper top show ?thesis by blast
qed

theorem C2_no_slot_no_result_witness:
  "visitor_helper_visit 3 (\<lambda>v. v + 1)
        [(0::int, \<lparr>storage = optional_value (5::int), timestamp = 3\<rparr>),
         (1, \<lparr>storage = optional_default, timestamp = 0\<rparr>)]
      = (None, [(0, \<lparr>storage = optional_value 5, timestamp = 3\<rparr>),
                (1, \<lparr>storage = optional_default, timestamp = 0\<rparr>)])
   \<and> visit (\<lambda>v. v + 1) (0::int) (one_of_default [0::int, 1]) = (0, one_of_default [0, 1])"
proof -
  let ?input = "[(0::int, \<lparr>storage = optional_value (5::int), timestamp = 3\<rparr>),
                 (1, \<lparr>storage = optional_default, timestamp = 0\<rparr>)]"
  have h: "\<forall>x\<in>set ?input. \<not> timestamp (snd x) > 3" by simp
  from C2_no_slot_no_result [of "\<lambda>v. v + 1" "[0::int, 1]" "0::int" ?input 3] h
  show ?thesis by blast
qed

lemma visitor_helper_visit_skip:
  "timestamp s = 0 \<Longrightarrow>
   fst (visitor_helper_visit ts h (xs @ (T0, s) # ys)) = fst (visitor_helper_visit ts h (xs @ ys))"
proof (induction xs arbitrary: ts)
  case Nil
  then show ?case by (simp add: visitor_helper_visit_Cons)
next
  case (Cons x xs)
  obtain T1 "value" where x: "x = (T1, value)" by (cases x)
  from Cons show ?case
    by (simp add: x visitor_helper_visit_Cons split: option.splits)
qed

text \<open>
  C9: the move constructor, from a slot that holds \<open>v\<close> with timestamp \<open>t\<close>, gives a
  slot with \<open>v\<close> and \<open>t\<close> and leaves the source with a null box and its timestamp \<open>t\<close>.
  Resolution still selects the source: alone in a \<^verbatim>\<open>one_of\<close> and with \<open>t > 0\<close>, \<^verbatim>\<open>visit\<close>
  returns the handler's output, computed on the value-initialised \<open>T0\<close> that \<^verbatim>\<open>operator*\<close>
  allocates in its box; and in any \<^verbatim>\<open>one_of\<close> where its timestamp is above the threshold
  and above every other slot's, it is the slot the handler is called on.
\<close>

theorem C9_moved_from_keeps_timestamp:
  "option_move \<lparr>storage = optional_value v, timestamp = t\<rparr> c =
     ((\<lparr>storage = optional_value v, timestamp = t\<rparr>,
       \<lparr>storage = optional_default, timestamp = t\<rparr>), c)
   \<and> (0 < t \<longrightarrow>
        visit h R0 [(T0, snd (fst (option_move \<lparr>storage = optional_value v, timestamp = t\<rparr> c)))] =
          (h T0, [(T0, \<lparr>storage = optional_value T0, timestamp = t\<rparr>)]))
   \<and> (i < length input \<and> snd (input ! i) = \<lparr>storage = optional_default, timestamp = t\<rparr>
        \<and> ts < t \<and> (\<forall>j<length input. j \<noteq> i \<longrightarrow> timestamp (snd (input ! j)) < t) \<longrightarrow>
        fst (visitor_helper_visit ts h input) = Some (h (fst (input ! i))))"
proof -
  have moved: "option_move \<lparr>storage = optional_value v, timestamp = t\<rparr> c =
     ((\<lparr>storage = optional_value v, timestamp = t\<rparr>,
       \<lparr>storage = optional_default, timestamp = t\<rparr>), c)"
    by (simp add: option_move_def optional_move_def optional_value_def optional_default_def)
  have alone: "visit h R0 [(T0, snd (fst (option_move \<lparr>storage = optional_value v, timestamp = t\<rparr> c)))] =
          (h T0, [(T0, \<lparr>storage = optional_value T0, timestamp = t\<rparr>)])" if "0 < t"
    unfolding moved using that
    by (simp add: visit_def option_deref_def get_or_create_def optional_default_def
        optional_value_def)
  have among: "fst (visitor_helper_visit ts h input) = Some (h (fst (input ! i)))"
    if "i < length input" and slot: "snd (input ! i) = \<lparr>storage = optional_default, timestamp = t\<rparr>"
      and "ts < t" and others: "\<forall>j<length input. j \<noteq> i \<longrightarrow> timestamp (snd (input ! j)) < t"
  proof -
    have "visitor_helper_visit ts h input =
      (Some (h (fst (option_deref (fst (input ! i)) (snd (input ! i))))),
       input[i := (fst (input ! i), snd (option_deref (fst (input ! i)) (snd (input ! i))))])"
    proof (rule visitor_helper_visit_first_max)
      show "i < length input" by fact
      show "ts < timestamp (snd (input ! i))" using \<open>ts < t\<close> by (simp add: slot)
      show "\<forall>j<i. timestamp (snd (input ! j)) < timestamp (snd (input ! i))"
        using others \<open>i < length input\<close> by (simp add: slot)
      show "\<forall>j<length input. i < j \<longrightarrow> timestamp (snd (input ! j)) \<le> timestamp (snd (input ! i))"
        using others by (auto simp: slot intro: less_imp_le)
    qed
    then show ?thesis
      by (simp add: slot option_deref_def get_or_create_def optional_default_def)
  qed
  from moved alone among show ?thesis by blast
qed

theorem C9_moved_from_keeps_timestamp_witness:
  "option_move \<lparr>storage = optional_value (5::int), timestamp = 2\<rparr> 7 =
     ((\<lparr>storage = optional_value 5, timestamp = 2\<rparr>,
       \<lparr>storage = optional_default, timestamp = 2\<rparr>), 7)
   \<and> visit (\<lambda>x. x + 1) (-1) [(0::int, \<lparr>storage = optional_default, timestamp = 2\<rparr>)] =
          (1, [(0, \<lparr>storage = optional_value 0, timestamp = 2\<rparr>)])
   \<and> fst (visitor_helper_visit 1 (\<lambda>x. x + 1)
        [(10::int, \<lparr>storage = optional_value 6, timestamp = 1\<rparr>),
         (20, \<lparr>storage = optional_default, timestamp = 2\<rparr>)]) = Some 21"
proof -
  let ?input = "[(10::int, \<lparr>storage = optional_value 6, timestamp = 1\<rparr>),
         (20, \<lparr>storage = optional_default, timestamp = 2\<rparr>)]"
  have h1: "(0 :: 64 word) < 2" by simp
  have h2: "1 < length ?input \<and> snd (?input ! 1) = \<lparr>storage = optional_default, timestamp = 2\<rparr>
        \<and> (1 :: 64 word) < 2 \<and> (\<forall>j<length ?input. j \<noteq> 1 \<longrightarrow> timestamp (snd (?input ! j)) < 2)"
    by (simp add: less_Suc_eq)
  note inst = C9_moved_from_keeps_timestamp [of "5::int" 2 7 "\<lambda>x. x + 1" "-1" 0 1 ?input 1]
  note moved = inst [THEN conjunct1]
  note alone' = inst [THEN conjunct2, THEN conjunct1, THEN mp, OF h1]
  note among' = inst [THEN conjunct2, THEN conjunct2, THEN mp, OF h2]
  from alone' have alone:
    "visit (\<lambda>x. x + 1) (-1) [(0::int, \<lparr>storage = optional_default, timestamp = 2\<rparr>)] =
      (1, [(0, \<lparr>storage = optional_value 0, timestamp = 2\<rparr>)])"
    by (simp only: moved fst_conv snd_conv) simp
  from among' have among: "fst (visitor_helper_visit 1 (\<lambda>x. x + 1) ?input) = Some 21"
    by simp
  from moved alone among show ?thesis by (intro conjI)
qed

text \<open>
  C10: copy-assigning a default-constructed slot into a slot that holds \<open>v\<close> (with any
  timestamp \<open>t\<close>) sets the timestamp to 0 and leaves the box holding \<open>v\<close>, present. The
  timestamp does not exceed the threshold 0: alone in a \<^verbatim>\<open>one_of\<close> the slot yields no
  result, and in any \<^verbatim>\<open>one_of\<close>, at any threshold, the result is the one that the other
  slots give without it.
\<close>

theorem C10_copy_assign_default_hides_value:
  "option_assign_copy T0 option_default \<lparr>storage = optional_value v, timestamp = t\<rparr> c =
     (\<lparr>storage = optional_value v, timestamp = 0\<rparr>, c)
   \<and> optional_bool (storage (fst (option_assign_copy T0 option_default
        \<lparr>storage = optional_value v, timestamp = t\<rparr> c)))
   \<and> \<not> timestamp (fst (option_assign_copy T0 option_default
        \<lparr>storage = optional_value v, timestamp = t\<rparr> c)) > 0
   \<and> visit h R0 [(T0, \<lparr>storage = optional_value v, timestamp = 0\<rparr>)] =
       (R0, [(T0, \<lparr>storage = optional_value v, timestamp = 0\<rparr>)])
   \<and> fst (visitor_helper_visit ts h
        (xs @ (T0, \<lparr>storage = optional_value v, timestamp = 0\<rparr>) # ys)) =
       fst (visitor_helper_visit ts h (xs @ ys))"
proof -
  have assigned: "option_assign_copy T0 option_default \<lparr>storage = optional_value v, timestamp = t\<rparr> c =
     (\<lparr>storage = optional_value v, timestamp = 0\<rparr>, c)"
    by (simp add: option_assign_copy_def option_default_def optional_assign_copy_eq
        optional_default_def)
  have present: "optional_bool (optional_value v)"
    by (simp add: optional_bool_def optional_value_def)
  have alone: "visit h R0 [(T0, \<lparr>storage = optional_value v, timestamp = 0\<rparr>)] =
       (R0, [(T0, \<lparr>storage = optional_value v, timestamp = 0\<rparr>)])"
    by (simp add: visit_def)
  have "fst (visitor_helper_visit ts h
        (xs @ (T0, \<lparr>storage = optional_value v, timestamp = 0\<rparr>) # ys)) =
       fst (visitor_helper_visit ts h (xs @ ys))"
    by (rule visitor_helper_visit_skip) simp
  with assigned present alone show ?thesis by simp
qed

section \<open>The timestamp over the history of a slot\<close>

lemma slot_run_snoc: "slot_run T0 c (ops @ [op]) = slot_step T0 (slot_run T0 c ops) op"
  by (simp add: slot_run_def)

lemma slot_run_at_snoc:
  "slot_run_at T0 (history @ [(c, op)]) = fst (slot_step T0 (slot_run_at T0 history, c) op)"
  by (simp add: slot_run_at_def)

lemma slot_step_timestamp:
  "timestamp (fst (slot_step T0 (this, c) (Assign_value v))) = c + 1"
  "timestamp (fst (slot_step T0 (this, c) (Assign_copy other))) = timestamp other"
  "timestamp (fst (slot_step T0 (this, c) Deref)) = timestamp this"
  by (simp_all add: option_assign_value_def counter_next_def option_assign_copy_def
      option_deref_def split_beta)

lemma slot_step_counter:
  "snd (slot_step T0 (this, c) (Assign_value v)) = c + 1"
  "snd (slot_step T0 (this, c) (Assign_copy other)) = c"
  "snd (slot_step T0 (this, c) Deref) = c"
  by (simp_all add: option_assign_value_def counter_next_def option_assign_copy_def)

lemma value_assignments_snoc:
  "value_assignments (ops @ [Assign_value v]) = Suc (value_assignments ops)"
  "value_assignments (ops @ [Assign_copy other]) = value_assignments ops"
  "value_assignments (ops @ [Deref]) = value_assignments ops"
  by (simp_all add: value_assignments_def)

text \<open>When only this slot draws, the counter after a history is the one before it plus
  the number of values assigned.\<close>

lemma slot_run_counter:
  "snd (slot_run T0 c ops) = c + of_nat (value_assignments ops)"
proof (induction ops rule: rev_induct)
  case Nil
  show ?case by (simp add: slot_run_def value_assignments_def)
next
  case (snoc op ops)
  obtain this c' where run: "slot_run T0 c ops = (this, c')"
    by (cases "slot_run T0 c ops")
  with snoc have c': "c' = c + of_nat (value_assignments ops)" by simp
  show ?case
    by (cases op)
      (simp_all add: slot_run_snoc run slot_step_counter c' value_assignments_snoc ac_simps
        del: slot_step.simps)
qed

lemma counter_offset_nonzero:
  fixes c :: "64 word"
  assumes "unat c + Suc k < 2 ^ 64"
  shows "c + of_nat k + 1 \<noteq> 0"
proof -
  have "unat (c + of_nat (Suc k)) = unat c + Suc k"
    using assms by (rule unat_counter_offset)
  then have "c + of_nat (Suc k) \<noteq> 0"
    by (auto simp del: of_nat_Suc)
  then show ?thesis by (simp add: ac_simps)
qed

text \<open>The invariant, with the counter at every statement given.\<close>

lemma slot_run_at_timestamp:
  assumes "\<not> list_ex draws_zero history"
    and "\<not> list_ex copies_unassigned (map snd history)"
  shows "(timestamp (slot_run_at T0 history) = 0) = (\<not> explicitly_assigned (map snd history))"
  using assms
proof (induction history rule: rev_induct)
  case Nil
  show ?case by (simp add: slot_run_at_def explicitly_assigned_def option_default_def)
next
  case (snoc x history)
  obtain c op where x: "x = (c, op)" by (cases x)
  show ?case
  proof (cases op)
    case (Assign_value v)
    with snoc.prems(1) have "c + 1 \<noteq> 0"
      by (simp add: x counter_next_def)
    then show ?thesis
      by (simp add: x Assign_value slot_run_at_snoc slot_step_timestamp explicitly_assigned_def
          del: slot_step.simps)
  next
    case (Assign_copy other)
    with snoc.prems(2) have "timestamp other \<noteq> 0" by (simp add: x)
    then show ?thesis
      by (simp add: x Assign_copy slot_run_at_snoc slot_step_timestamp explicitly_assigned_def
          del: slot_step.simps)
  next
    case Deref
    from snoc.prems have "\<not> list_ex draws_zero history"
      "\<not> list_ex copies_unassigned (map snd history)"
      by simp_all
    then have "(timestamp (slot_run_at T0 history) = 0) =
        (\<not> explicitly_assigned (map snd history))"
      by (rule snoc.IH)
    then show ?thesis
      by (simp add: x Deref slot_run_at_snoc slot_step_timestamp explicitly_assigned_def
          del: slot_step.simps)
  qed
qed

text \<open>The invariant when only this slot draws: the counter must not wrap over the values
  assigned.\<close>

lemma slot_run_timestamp:
  assumes "unat c + value_assignments ops < 2 ^ 64" and "\<not> list_ex copies_unassigned ops"
  shows "(timestamp (fst (slot_run T0 c ops)) = 0) = (\<not> explicitly_assigned ops)"
  using assms
proof (induction ops rule: rev_induct)
  case Nil
  show ?case by (simp add: slot_run_def explicitly_assigned_def option_default_def)
next
  case (snoc op ops)
  obtain this c' where run: "slot_run T0 c ops = (this, c')"
    by (cases "slot_run T0 c ops")
  with slot_run_counter [of T0 c ops] have c': "c' = c + of_nat (value_assignments ops)"
    by simp
  show ?case
  proof (cases op)
    case (Assign_value v)
    with snoc.prems(1) have "unat c + Suc (value_assignments ops) < 2 ^ 64"
      by (simp add: value_assignments_snoc)
    then have "c' + 1 \<noteq> 0" unfolding c' by (rule counter_offset_nonzero)
    then show ?thesis
      by (simp add: slot_run_snoc run Assign_value slot_step_timestamp explicitly_assigned_def
          del: slot_step.simps)
  next
    case (Assign_copy other)
    with snoc.prems(2) have "timestamp other \<noteq> 0" by simp
    then show ?thesis
      by (simp add: slot_run_snoc run Assign_copy slot_step_timestamp explicitly_assigned_def
          del: slot_step.simps)
  next
    case Deref
    from snoc.prems have "unat c + value_assignments ops < 2 ^ 64"
      "\<not> list_ex copies_unassigned ops"
      by (simp_all add: Deref value_assignments_snoc)
    then have "(timestamp (fst (slot_run T0 c ops)) = 0) = (\<not> explicitly_assigned ops)"
      by (rule snoc.IH)
    then show ?thesis
      by (simp add: slot_run_snoc run Deref slot_step_timestamp explicitly_assigned_def
          del: slot_step.simps)
  qed
qed

text \<open>
  C3, as stated, fails. From the counter value 0, a default-constructed \<^verbatim>\<open>option<int>\<close> is
  assigned 5 and then copy-assigned a default-constructed slot: it has been the target of
  two explicit assignments and its box still holds a value, but its timestamp is 0, so the
  copy assignment did not preserve the invariant. In the other direction, a
  default-constructed slot that is only copy-assigned a slot with timestamp 1 has timestamp
  1 without ever having been assigned a value. And at the counter value \<open>2^64 - 1\<close> the
  assignment of a value draws the number 0.
\<close>

theorem C3_timestamp_zero_after_assignment:
  "timestamp (fst (slot_run (0::int) 0 [Assign_value 5, Assign_copy option_default])) = 0
   \<and> explicitly_assigned [Assign_value (5::int), Assign_copy option_default]
   \<and> optional_bool (storage (fst (slot_run (0::int) 0 [Assign_value 5, Assign_copy option_default])))
   \<and> \<not> ((timestamp (fst (slot_run (0::int) 0 [Assign_value 5, Assign_copy option_default])) = 0)
         = (\<not> explicitly_assigned [Assign_value (5::int), Assign_copy option_default]))
   \<and> timestamp (fst (slot_run (0::int) 0
         [Assign_copy \<lparr>storage = optional_value 7, timestamp = 1\<rparr>])) = 1
   \<and> timestamp (fst (slot_run (0::int) 18446744073709551615 [Assign_value 5])) = 0"
  by (simp add: slot_run_def explicitly_assigned_def option_assign_value_def counter_next_def
      option_assign_copy_def option_default_def optional_assign_copy_eq optional_assign_value_eq
      optional_default_def optional_bool_def optional_value_def)

text \<open>
  C3, amended. A slot starts default-constructed, with timestamp 0, and is then the target
  of assignments of values, copy assignments and dereferences; an explicit assignment is
  an assignment of either kind, of a value or of another slot. Its timestamp is 0 exactly
  when it has never been the target of an explicit assignment, as long as no assignment of
  a value to it makes the draw that wraps the counter (the draw at \<open>2^64 - 1\<close>, which
  yields 0) and no slot it is copy-assigned from has the timestamp 0. This holds whatever
  the counter is at each statement, so whatever other slots draw in between (first part).
  When only this slot draws, no draw wraps as long as the counter \<open>c\<close> at its construction
  and the number of values assigned stay below \<open>2^64\<close> together; dereferences and copy
  assignments do not count (second part). Step by step: the default constructor sets 0;
  the assignment of a value and the constructor from a value set the number drawn, which
  is not 0 unless the counter wraps at this draw; the copy assignment and the copy and move
  constructors set the timestamp of the source, which the moved-from source keeps; the
  auto-vivifying dereference leaves the timestamp as it is.
\<close>

theorem C3_timestamp_invariant:
  "(\<not> list_ex draws_zero history \<and> \<not> list_ex copies_unassigned (map snd history) \<longrightarrow>
      (timestamp (slot_run_at T0 history) = 0) = (\<not> explicitly_assigned (map snd history)))
   \<and> (unat c + value_assignments ops < 2 ^ 64 \<and> \<not> list_ex copies_unassigned ops \<longrightarrow>
      (timestamp (fst (slot_run T0 c ops)) = 0) = (\<not> explicitly_assigned ops))
   \<and> timestamp (option_default :: 'a option_slot) = 0
   \<and> (c + 1 \<noteq> 0 \<longrightarrow>
        timestamp (fst (option_assign_value T0 v this c)) \<noteq> 0
        \<and> timestamp (fst (option_value v c)) \<noteq> 0)
   \<and> timestamp (fst (option_assign_copy T0 other this c)) = timestamp other
   \<and> timestamp (fst (option_copy T0 other c)) = timestamp other
   \<and> timestamp (fst (fst (option_move other c))) = timestamp other
   \<and> timestamp (snd (fst (option_move other c))) = timestamp other
   \<and> timestamp (snd (option_deref T0 this)) = timestamp this"
proof -
  have interleaved: "(timestamp (slot_run_at T0 history) = 0) =
      (\<not> explicitly_assigned (map snd history))"
    if "\<not> list_ex draws_zero history \<and> \<not> list_ex copies_unassigned (map snd history)"
    using that by (intro slot_run_at_timestamp) simp_all
  have alone: "(timestamp (fst (slot_run T0 c ops)) = 0) = (\<not> explicitly_assigned ops)"
    if "unat c + value_assignments ops < 2 ^ 64 \<and> \<not> list_ex copies_unassigned ops"
    using that by (intro slot_run_timestamp) simp_all
  have dflt: "timestamp (option_default :: 'a option_slot) = 0"
    by (simp add: option_default_def)
  have draws: "timestamp (fst (option_assign_value T0 v this c)) \<noteq> 0
        \<and> timestamp (fst (option_value v c)) \<noteq> 0" if "c + 1 \<noteq> 0"
    using that by (simp add: option_assign_value_def option_value_def counter_next_def)
  have copies: "timestamp (fst (option_assign_copy T0 other this c)) = timestamp other"
    "timestamp (fst (option_copy T0 other c)) = timestamp other"
    by (simp_all add: option_assign_copy_def option_copy_def)
  have moves: "timestamp (fst (fst (option_move other c))) = timestamp other"
    "timestamp (snd (fst (option_move other c))) = timestamp other"
    by (simp_all add: option_move_def optional_move_def)
  have reads: "timestamp (snd (option_deref T0 this)) = timestamp this"
    by (simp add: option_deref_def split_beta)
  from interleaved alone dflt draws copies moves reads show ?thesis
    by simp
qed

text \<open>
  The witness runs the first part on a history in which other slots draw between the
  statements and wrap the counter on their own (the slot draws at \<open>2^64 - 3\<close> and at 3),
  and the second part at the counter \<open>2^64 - 2\<close> with two dereferences before the one
  assignment, whose draw is the last one before the wrap.
\<close>

theorem C3_timestamp_invariant_witness:
  "timestamp (slot_run_at (0::int)
      [(18446744073709551613, Assign_value 5), (0, Deref), (3, Assign_value 6)]) = 4
   \<and> (timestamp (slot_run_at (0::int)
      [(18446744073709551613, Assign_value 5), (0, Deref), (3, Assign_value 6)]) = 0)
       = (\<not> explicitly_assigned (map snd
          [(18446744073709551613 :: 64 word, Assign_value (5::int)), (0, Deref),
           (3, Assign_value 6)]))
   \<and> timestamp (fst (slot_run (0::int) 18446744073709551614 [Deref, Deref, Assign_value 5]))
       = 18446744073709551615
   \<and> (timestamp (fst (slot_run (0::int) 18446744073709551614 [Deref, Deref, Assign_value 5])) = 0)
       = (\<not> explicitly_assigned [Deref, Deref, Assign_value (5::int)])
   \<and> timestamp (fst (option_assign_value (0::int) 5 option_default 18446744073709551614)) \<noteq> 0
   \<and> timestamp (fst (option_value (5::int) 18446744073709551614)) \<noteq> 0"
proof -
  let ?history = "[(18446744073709551613 :: 64 word, Assign_value (5::int)), (0, Deref),
    (3, Assign_value 6)]"
  let ?ops = "[Deref, Deref, Assign_value (5::int)]"
  let ?c = "18446744073709551614 :: 64 word"
  note inst = C3_timestamp_invariant [where history = ?history and ?T0.0 = "0::int"
      and c = ?c and ops = ?ops and v = 5 and this = option_default]
  have h1: "\<not> list_ex draws_zero ?history \<and> \<not> list_ex copies_unassigned (map snd ?history)"
    by (simp add: counter_next_def)
  have h2: "unat ?c + value_assignments ?ops < 2 ^ 64 \<and> \<not> list_ex copies_unassigned ?ops"
    by (simp add: value_assignments_def)
  have h3: "?c + 1 \<noteq> 0" by simp
  note interleaved = inst [THEN conjunct1, THEN mp, OF h1]
  note alone = inst [THEN conjunct2, THEN conjunct1, THEN mp, OF h2]
  note draws = inst [THEN conjunct2, THEN conjunct2, THEN conjunct2, THEN conjunct1, THEN mp, OF h3]
  have run_at: "timestamp (slot_run_at (0::int) ?history) = 4"
    by (simp add: slot_run_at_def option_assign_value_def counter_next_def option_deref_def
        split_beta)
  have run: "timestamp (fst (slot_run (0::int) ?c ?ops)) = 18446744073709551615"
    by (simp add: slot_run_def option_assign_value_def counter_next_def option_deref_def
        split_beta)
  from run_at interleaved run alone draws show ?thesis by (intro conjI) simp_all
qed

section \<open>Last write wins\<close>

text \<open>Among slots of which one is above the threshold, some slot is the first to carry the
  greatest timestamp.\<close>

lemma ex_first_max:
  fixes input :: "'v one_of"
  assumes "\<exists>x\<in>set input. ts < timestamp (snd x)"
  shows "\<exists>i<length input. ts < timestamp (snd (input ! i))
    \<and> (\<forall>j<i. timestamp (snd (input ! j)) < timestamp (snd (input ! i)))
    \<and> (\<forall>j<length input. i < j \<longrightarrow> timestamp (snd (input ! j)) \<le> timestamp (snd (input ! i)))"
proof -
  let ?T = "\<lambda>j. timestamp (snd (input ! j))"
  let ?S = "(\<lambda>x. timestamp (snd x)) ` set input"
  from assms obtain x where x: "x \<in> set input" "ts < timestamp (snd x)" by blast
  then have ne: "?S \<noteq> {}" and fin: "finite ?S" by auto
  define m where "m = Max ?S"
  have m_in: "m \<in> ?S" unfolding m_def using fin ne by (rule Max_in)
  have m_ge: "t \<le> m" if "t \<in> ?S" for t
    unfolding m_def using fin that by (rule Max_ge)
  from m_in obtain k where k: "k < length input" "?T k = m"
    by (auto simp: in_set_conv_nth)
  define i where "i = (LEAST k. k < length input \<and> ?T k = m)"
  have i: "i < length input \<and> ?T i = m"
    unfolding i_def using k by (intro LeastI [of "\<lambda>k. k < length input \<and> ?T k = m" k]) simp
  have least: "\<not> (j < length input \<and> ?T j = m)" if "j < i" for j
    using that unfolding i_def by (rule not_less_Least)
  have all_le: "?T j \<le> m" if "j < length input" for j
    using that by (intro m_ge) auto
  have "ts < ?T i"
  proof -
    from x(1) have "timestamp (snd x) \<le> m" by (intro m_ge) auto
    with x(2) i show ?thesis by simp
  qed
  moreover have "\<forall>j<i. ?T j < ?T i"
  proof (intro allI impI)
    fix j assume "j < i"
    with i have j: "j < length input" by simp
    with least [OF \<open>j < i\<close>] have "?T j \<noteq> m" by simp
    with all_le [OF j] i show "?T j < ?T i" by simp
  qed
  moreover have "\<forall>j<length input. i < j \<longrightarrow> ?T j \<le> ?T i"
    using all_le i by simp
  ultimately show ?thesis using i by blast
qed

lemma visitor_helper_visit_some:
  assumes "\<exists>x\<in>set input. ts < timestamp (snd x)"
  shows "fst (visitor_helper_visit ts h input) \<noteq> None"
proof -
  from ex_first_max [OF assms] obtain i where "i < length input"
    "ts < timestamp (snd (input ! i))"
    "\<forall>j<i. timestamp (snd (input ! j)) < timestamp (snd (input ! i))"
    "\<forall>j<length input. i < j \<longrightarrow> timestamp (snd (input ! j)) \<le> timestamp (snd (input ! i))"
    by blast
  then have "fst (visitor_helper_visit ts h input) =
      Some (h (fst (option_deref (fst (input ! i)) (snd (input ! i)))))"
    by (simp add: visitor_helper_visit_first_max)
  then show ?thesis by simp
qed

lemma visitor_helper_visit_unique_max:
  assumes "i < length input"
    and "ts < timestamp (snd (input ! i))"
    and "\<forall>j<length input. j \<noteq> i \<longrightarrow> timestamp (snd (input ! j)) < timestamp (snd (input ! i))"
  shows "visitor_helper_visit ts h input =
     (Some (h (fst (option_deref (fst (input ! i)) (snd (input ! i))))),
      input[i := (fst (input ! i), snd (option_deref (fst (input ! i)) (snd (input ! i))))])"
proof (rule visitor_helper_visit_first_max)
  show "i < length input" "ts < timestamp (snd (input ! i))" by fact+
  show "\<forall>j<i. timestamp (snd (input ! j)) < timestamp (snd (input ! i))"
    using assms(1,3) by simp
  show "\<forall>j<length input. i < j \<longrightarrow> timestamp (snd (input ! j)) \<le> timestamp (snd (input ! i))"
    using assms(3) by (auto intro: less_imp_le)
qed

text \<open>Three draws in a row that do not wrap are increasing and above 0.\<close>

lemma three_draws:
  fixes c :: "64 word"
  assumes "unat c + 3 < 2 ^ 64"
  shows "0 < c + 1" "c + 1 < c + 2" "c + 2 < c + 3" "0 < c + 3" "0 < c + 2"
proof -
  have "unat (c + of_nat 1) = unat c + 1" "unat (c + of_nat 2) = unat c + 2"
    "unat (c + of_nat 3) = unat c + 3"
    using assms by (simp_all only: unat_counter_offset)
  then have u: "unat (c + 1) = unat c + 1" "unat (c + 2) = unat c + 2" "unat (c + 3) = unat c + 3"
    by simp_all
  show "0 < c + 1" "c + 1 < c + 2" "c + 2 < c + 3" "0 < c + 3" "0 < c + 2"
    by (simp_all add: word_less_nat_alt u)
qed

lemma last_write_wins_two:
  assumes "length input = 2" and "unat c + 3 < 2 ^ 64"
  shows "fst (visit h R0 (fst (one_of_assign_values [(0, a1), (1, b1)] input c))) = h b1"
    and "fst (visit h R0 (fst (one_of_assign_value 0 a2
           (snd (visit h R0 (fst (one_of_assign_values [(0, a1), (1, b1)] input c))))
           (snd (one_of_assign_values [(0, a1), (1, b1)] input c))))) = h a2"
proof -
  from assms(1) obtain A0 sA B0 sB where input: "input = [(A0, sA), (B0, sB)]"
    by (cases input; cases "tl input") auto
  note d = three_draws [OF assms(2)]
  have s2: "one_of_assign_values [(0, a1), (1, b1)] input c =
    ([(A0, \<lparr>storage = optional_value a1, timestamp = c + 1\<rparr>),
      (B0, \<lparr>storage = optional_value b1, timestamp = c + 2\<rparr>)], c + 2)"
    by (simp add: input one_of_assign_value_def option_assign_value_def counter_next_def
        optional_assign_value_eq optional_value_def)
  have q1: "visit h R0 [(A0, \<lparr>storage = optional_value a1, timestamp = c + 1\<rparr>),
      (B0, \<lparr>storage = optional_value b1, timestamp = c + 2\<rparr>)] =
    (h b1, [(A0, \<lparr>storage = optional_value a1, timestamp = c + 1\<rparr>),
      (B0, \<lparr>storage = optional_value b1, timestamp = c + 2\<rparr>)])"
    using d by (simp add: visit_def option_deref_def get_or_create_def optional_value_def)
  show "fst (visit h R0 (fst (one_of_assign_values [(0, a1), (1, b1)] input c))) = h b1"
    by (simp only: s2 q1 fst_conv)
  have s3: "one_of_assign_value 0 a2 [(A0, \<lparr>storage = optional_value a1, timestamp = c + 1\<rparr>),
      (B0, \<lparr>storage = optional_value b1, timestamp = c + 2\<rparr>)] (c + 2) =
    ([(A0, \<lparr>storage = optional_value a2, timestamp = c + 3\<rparr>),
      (B0, \<lparr>storage = optional_value b1, timestamp = c + 2\<rparr>)], c + 3)"
    by (simp add: one_of_assign_value_def option_assign_value_def counter_next_def
        optional_assign_value_eq optional_value_def)
  have q2: "fst (visit h R0 [(A0, \<lparr>storage = optional_value a2, timestamp = c + 3\<rparr>),
      (B0, \<lparr>storage = optional_value b1, timestamp = c + 2\<rparr>)]) = h a2"
    using d less_not_sym [OF d(3)]
    by (simp add: visit_def option_deref_def get_or_create_def optional_value_def)
  show "fst (visit h R0 (fst (one_of_assign_value 0 a2
           (snd (visit h R0 (fst (one_of_assign_values [(0, a1), (1, b1)] input c))))
           (snd (one_of_assign_values [(0, a1), (1, b1)] input c))))) = h a2"
    by (simp only: s2 q1 s3 q2 fst_conv snd_conv)
qed

text \<open>
  C1, as stated, fails in its last-write-wins part: the order of the writes is read off the
  drawn numbers, and the draw wraps. A fresh \<^verbatim>\<open>one_of<int, string>\<close> (values \<open>Inl\<close> and
  \<open>Inr\<close>) is assigned \<open>A := 1\<close> and then \<open>B := ''b1''\<close> when the counter stands at \<open>2^64 - 2\<close>:
  the slot of \<open>A\<close> gets the timestamp \<open>2^64 - 1\<close>, the slot of \<open>B\<close> gets 0, and the query
  with the identity handler returns the 1 written first, not \<open>''b1''\<close>.
\<close>

theorem C1_last_write_lost_at_wrap:
  "fst (one_of_assign_values [(0, Inl 1), (1, Inr ''b1'')]
          (one_of_default [Inl (0::int), Inr '''']) 18446744073709551614) =
     [(Inl 0, \<lparr>storage = optional_value (Inl 1), timestamp = 18446744073709551615\<rparr>),
      (Inr '''', \<lparr>storage = optional_value (Inr ''b1''), timestamp = 0\<rparr>)]
   \<and> fst (visit (\<lambda>v. v) (Inr ''none'')
        (fst (one_of_assign_values [(0, Inl 1), (1, Inr ''b1'')]
          (one_of_default [Inl (0::int), Inr '''']) 18446744073709551614))) = Inl 1
   \<and> fst (visit (\<lambda>v. v) (Inr ''none'')
        (fst (one_of_assign_values [(0, Inl 1), (1, Inr ''b1'')]
          (one_of_default [Inl (0::int), Inr '''']) 18446744073709551614))) \<noteq> Inr ''b1''"
  by (simp add: one_of_default_def option_default_def one_of_assign_value_def
      option_assign_value_def counter_next_def optional_assign_value_eq optional_value_def
      visit_def option_deref_def get_or_create_def)

text \<open>
  C1, amended. For every \<^verbatim>\<open>one_of\<close> and threshold: if the slot \<open>i\<close> has a timestamp above the
  threshold and above the timestamp of every other slot, \<^verbatim>\<open>visitor_helper::visit\<close> returns
  the handler's output on the value of that slot, \<^verbatim>\<open>*value\<close>, and touches no other slot; so
  does \<^verbatim>\<open>visit\<close> for the threshold 0; \<^verbatim>\<open>*value\<close> is the value the slot holds when it holds
  one. Whenever some slot
  is above the threshold a result is returned, and it is one result by the return type.
  Last write wins as long as the counter does not wrap: in a two-type object, with the
  counter at \<open>c\<close> and \<open>c + 3 < 2^64\<close>, after \<open>A := a1\<close> then \<open>B := b1\<close> the query returns
  the handler's output on \<open>b1\<close>, and after \<open>A := a2\<close> on the object the query left it returns
  the output on \<open>a2\<close>.
\<close>

theorem C1_visit_latest:
  "(i < length input \<and> ts < timestamp (snd (input ! i))
      \<and> (\<forall>j<length input. j \<noteq> i \<longrightarrow> timestamp (snd (input ! j)) < timestamp (snd (input ! i)))
      \<longrightarrow> visitor_helper_visit ts h input =
            (Some (h (fst (option_deref (fst (input ! i)) (snd (input ! i))))),
             input[i := (fst (input ! i), snd (option_deref (fst (input ! i)) (snd (input ! i))))]))
   \<and> (i < length input \<and> 0 < timestamp (snd (input ! i))
      \<and> (\<forall>j<length input. j \<noteq> i \<longrightarrow> timestamp (snd (input ! j)) < timestamp (snd (input ! i)))
      \<longrightarrow> fst (visit h R0 input) = h (fst (option_deref (fst (input ! i)) (snd (input ! i)))))
   \<and> (storage slot = optional_value v \<longrightarrow> fst (option_deref T0 slot) = v)
   \<and> ((\<exists>x\<in>set input. ts < timestamp (snd x)) \<longrightarrow> fst (visitor_helper_visit ts h input) \<noteq> None)
   \<and> (length object = 2 \<and> unat c + 3 < 2 ^ 64 \<longrightarrow>
        fst (visit h R0 (fst (one_of_assign_values [(0, a1), (1, b1)] object c))) = h b1
        \<and> fst (visit h R0 (fst (one_of_assign_value 0 a2
             (snd (visit h R0 (fst (one_of_assign_values [(0, a1), (1, b1)] object c))))
             (snd (one_of_assign_values [(0, a1), (1, b1)] object c))))) = h a2)"
proof -
  have helper: "visitor_helper_visit ts h input =
      (Some (h (fst (option_deref (fst (input ! i)) (snd (input ! i))))),
       input[i := (fst (input ! i), snd (option_deref (fst (input ! i)) (snd (input ! i))))])"
    if "i < length input \<and> ts < timestamp (snd (input ! i))
      \<and> (\<forall>j<length input. j \<noteq> i \<longrightarrow> timestamp (snd (input ! j)) < timestamp (snd (input ! i)))"
    for ts
    using that by (intro visitor_helper_visit_unique_max) simp_all
  have top: "fst (visit h R0 input) = h (fst (option_deref (fst (input ! i)) (snd (input ! i))))"
    if "i < length input \<and> 0 < timestamp (snd (input ! i))
      \<and> (\<forall>j<length input. j \<noteq> i \<longrightarrow> timestamp (snd (input ! j)) < timestamp (snd (input ! i)))"
    using helper [OF that] by (simp add: visit_def split_beta split: option.splits)
  have held: "fst (option_deref T0 slot) = v" if "storage slot = optional_value v"
    using that by (simp add: option_deref_def get_or_create_def optional_value_def)
  have some: "fst (visitor_helper_visit ts h input) \<noteq> None"
    if "\<exists>x\<in>set input. ts < timestamp (snd x)"
    using that by (rule visitor_helper_visit_some)
  have scenario: "fst (visit h R0 (fst (one_of_assign_values [(0, a1), (1, b1)] object c))) = h b1
        \<and> fst (visit h R0 (fst (one_of_assign_value 0 a2
             (snd (visit h R0 (fst (one_of_assign_values [(0, a1), (1, b1)] object c))))
             (snd (one_of_assign_values [(0, a1), (1, b1)] object c))))) = h a2"
    if "length object = 2 \<and> unat c + 3 < 2 ^ 64"
    using that by (intro conjI last_write_wins_two) simp_all
  from helper [of ts] top held some scenario show ?thesis
    by simp
qed

theorem C1_visit_latest_witness:
  "fst (visitor_helper_visit 1 (\<lambda>v. v)
      [(Inl (0::int), \<lparr>storage = optional_value (Inl 5), timestamp = 1\<rparr>),
       (Inr '''', \<lparr>storage = optional_value (Inr ''hello''), timestamp = 2\<rparr>)]) = Some (Inr ''hello'')
   \<and> fst (visit (\<lambda>v. v) (Inr ''none'')
      [(Inl (0::int), \<lparr>storage = optional_value (Inl 5), timestamp = 1\<rparr>),
       (Inr '''', \<lparr>storage = optional_value (Inr ''hello''), timestamp = 2\<rparr>)]) = Inr ''hello''
   \<and> fst (visit (\<lambda>v. v) (Inr ''none'')
        (fst (one_of_assign_values [(0, Inl 5), (1, Inr ''hello'')]
          (one_of_default [Inl (0::int), Inr '''']) 0))) = Inr ''hello''
   \<and> fst (visit (\<lambda>v. v) (Inr ''none'') (fst (one_of_assign_value 0 (Inl 7)
        (snd (visit (\<lambda>v. v) (Inr ''none'')
          (fst (one_of_assign_values [(0, Inl 5), (1, Inr ''hello'')]
            (one_of_default [Inl (0::int), Inr '''']) 0))))
        (snd (one_of_assign_values [(0, Inl 5), (1, Inr ''hello'')]
            (one_of_default [Inl (0::int), Inr '''']) 0))))) = Inl 7"
proof -
  let ?set = "[(Inl (0::int), \<lparr>storage = optional_value (Inl 5), timestamp = 1\<rparr>),
       (Inr '''', \<lparr>storage = optional_value (Inr ''hello''), timestamp = 2\<rparr>)]"
  let ?slot = "\<lparr>storage = optional_value (Inr ''hello''), timestamp = 2\<rparr> :: (int + string) option_slot"
  have h1: "1 < length ?set \<and> 1 < timestamp (snd (?set ! 1))
      \<and> (\<forall>j<length ?set. j \<noteq> 1 \<longrightarrow> timestamp (snd (?set ! j)) < timestamp (snd (?set ! 1)))"
    by (simp add: less_Suc_eq)
  have h2: "1 < length ?set \<and> 0 < timestamp (snd (?set ! 1))
      \<and> (\<forall>j<length ?set. j \<noteq> 1 \<longrightarrow> timestamp (snd (?set ! j)) < timestamp (snd (?set ! 1)))"
    by (simp add: less_Suc_eq)
  have h3: "storage ?slot = optional_value (Inr ''hello'')" by simp
  have h4: "\<exists>x\<in>set ?set. 1 < timestamp (snd x)" by simp
  have h5: "length (one_of_default [Inl (0::int), Inr '''']) = 2 \<and> unat (0 :: 64 word) + 3 < 2 ^ 64"
    by (simp add: one_of_default_def)
  note inst = C1_visit_latest [where i = 1 and input = ?set and ts = 1 and h = "\<lambda>v. v"
      and ?R0.0 = "Inr ''none''" and slot = ?slot and v = "Inr ''hello''" and ?T0.0 = "Inr ''''"
      and object = "one_of_default [Inl (0::int), Inr '''']" and c = 0
      and ?a1.0 = "Inl 5" and ?b1.0 = "Inr ''hello''" and ?a2.0 = "Inl 7"]
  note r1 = inst [THEN conjunct1, THEN mp, OF h1]
  note r2 = inst [THEN conjunct2, THEN conjunct1, THEN mp, OF h2]
  note r3 = inst [THEN conjunct2, THEN conjunct2, THEN conjunct1, THEN mp, OF h3]
  note r4 = inst [THEN conjunct2, THEN conjunct2, THEN conjunct2, THEN conjunct1, THEN mp, OF h4]
  note r5 = inst [THEN conjunct2, THEN conjunct2, THEN conjunct2, THEN conjunct2, THEN mp, OF h5]
  from r1 r3 have a: "fst (visitor_helper_visit 1 (\<lambda>v. v) ?set) = Some (Inr ''hello'')"
    by (simp only: fst_conv) simp
  from r2 r3 have b: "fst (visit (\<lambda>v. v) (Inr ''none'') ?set) = Inr ''hello''"
    by simp
  from a b r5 show ?thesis by (intro conjI) simp_all
qed

end
